theory Spec2Isabelle
  imports Complex_Main "HOL-Library.Word"
begin

section \<open>Persisted documents\<close>

text \<open>
  Both stores keep one JSON document on disk, read it with \<^verbatim>\<open>open(path, "r")\<close> followed
  by \<^verbatim>\<open>json.load\<close> and write it with \<^verbatim>\<open>open(path, "w")\<close> followed by
  \<^verbatim>\<open>json.dump\<close>. What is at the path of a document is one of:
  \<^item> \<open>Absent\<close>: nothing; the directory around it exists (the constructors make it), and
    a write creates the file.
  \<^item> \<open>Holds doc\<close>: a file that can be read and written and whose text is the document.
    \<^verbatim>\<open>json.dump\<close> followed by \<^verbatim>\<open>json.load\<close> is taken to give the document back, so a
    file that was written holds the document itself.
  \<^item> \<open>Raises JSONDecodeError\<close>, \<open>Raises UnicodeDecodeError\<close>: a file that can be read
    and written but whose bytes are not a document: text that is not JSON, or bytes that
    are not text in the file's encoding (the text-mode read inside \<^verbatim>\<open>json.load\<close> raises
    \<^verbatim>\<open>UnicodeDecodeError\<close>, a \<^verbatim>\<open>ValueError\<close> like \<^verbatim>\<open>JSONDecodeError\<close> but not a subclass
    of it). A write replaces the bytes.
  \<^item> \<open>Raises OSError\<close>: something that can be neither read nor written, a directory in
    place of the file or a file without any permission. \<^verbatim>\<open>open\<close> raises an
    \<^verbatim>\<open>OSError\<close> (\<^verbatim>\<open>IsADirectoryError\<close>, \<^verbatim>\<open>PermissionError\<close>) in either mode;
    \<^verbatim>\<open>IOError\<close> is an alias of \<^verbatim>\<open>OSError\<close>.
  \<^item> \<open>Unreadable\<close>: a file that can be written but not read. The read raises
    \<^verbatim>\<open>PermissionError\<close>, an \<^verbatim>\<open>OSError\<close>; a write succeeds and the file stays unreadable.
  A file that can be read is taken to be writable. The other exceptions of \<open>py_error\<close>
  are raised by the code itself, not by reading a file.
\<close>

datatype py_error =
    OSError | JSONDecodeError | UnicodeDecodeError | KeyError
  | AttributeError | TypeError

datatype 'a disk_file = Absent | Raises py_error | Holds 'a | Unreadable

text \<open>\<^verbatim>\<open>open(path, "w")\<close> and \<^verbatim>\<open>json.dump\<close>: the file afterwards, or the exception.\<close>

fun write_file :: "'a \<Rightarrow> 'a disk_file \<Rightarrow> py_error + 'a disk_file" where
  "write_file doc (Raises OSError) = Inl OSError"
| "write_file doc Unreadable = Inr Unreadable"
| "write_file doc _ = Inr (Holds doc)"

text \<open>The handler \<^verbatim>\<open>except (json.JSONDecodeError, IOError)\<close> of both loaders.\<close>

fun caught_by_loader :: "py_error \<Rightarrow> bool" where
  "caught_by_loader JSONDecodeError = True"
| "caught_by_loader OSError = True"
| "caught_by_loader _ = False"

section \<open>Formatting integers\<close>

text \<open>
  \<^verbatim>\<open>f"{n:03d}"\<close>: the decimal digits of \<open>n\<close>, zero-padded to width 3, the sign counted
  in the width (\<^verbatim>\<open>-1\<close> gives \<^verbatim>\<open>-01\<close>); longer numbers are written in full.
\<close>

definition digit_char :: "nat \<Rightarrow> char" where
  "digit_char d = ''0123456789'' ! d"

fun dec_digits :: "nat \<Rightarrow> string" where
  "dec_digits n = (if n < 10 then [digit_char n] else dec_digits (n div 10) @ [digit_char (n mod 10)])"

declare dec_digits.simps [simp del]

definition zfill :: "nat \<Rightarrow> string \<Rightarrow> string" where
  "zfill w s = replicate (w - length s) (CHR ''0'') @ s"

definition format_03d :: "int \<Rightarrow> string" where
  "format_03d n = (if n < 0 then CHR ''-'' # zfill 2 (dec_digits (nat (- n)))
                   else zfill 3 (dec_digits (nat n)))"




section \<open>Task store (tasks.py)\<close>

text \<open>
  A task as the dataclass \<^verbatim>\<open>Task\<close> has it, and as a dictionary of the tasks document
  has it: there the keys \<^verbatim>\<open>status\<close> and \<^verbatim>\<open>priority\<close> may be missing
  (\<^verbatim>\<open>Task.from_dict\<close> then takes the dataclass defaults \<^verbatim>\<open>"pending"\<close> and \<^verbatim>\<open>0\<close>).
\<close>

record Task =
  task_id :: string
  title :: string
  description :: string
  status :: string
  priority :: int
  created_at :: string
  completed_at :: "string option"
  raw_thought :: "string option"
  phase :: "string option"
  success_criteria :: "string option"

record task_dict =
  d_id :: string
  d_title :: string
  d_description :: string
  d_status :: "string option"
  d_priority :: "int option"
  d_created_at :: string
  d_completed_at :: "string option"
  d_raw_thought :: "string option"
  d_phase :: "string option"
  d_success_criteria :: "string option"


definition from_dict :: "task_dict \<Rightarrow> Task" where
  "from_dict d = \<lparr> task_id = d_id d, title = d_title d, description = d_description d,
     status = (case d_status d of None \<Rightarrow> ''pending'' | Some s \<Rightarrow> s),
     priority = (case d_priority d of None \<Rightarrow> 0 | Some p \<Rightarrow> p),
     created_at = d_created_at d, completed_at = d_completed_at d,
     raw_thought = d_raw_thought d, phase = d_phase d,
     success_criteria = d_success_criteria d \<rparr>"

text \<open>The tasks document \<^verbatim>\<open>{"raw_thoughts": [...], "tasks": [...], "next_id": n}\<close>.\<close>

record tasks_doc =
  raw_thoughts :: "(string \<times> string) list"
  tasks :: "task_dict list"
  next_id :: int

definition empty_doc :: tasks_doc where
  "empty_doc = \<lparr> raw_thoughts = [], tasks = [], next_id = 1 \<rparr>"

text \<open>
  The migration loop of \<^verbatim>\<open>_load_data\<close>: the task at index \<open>i\<close> whose priority is
  missing or \<open>0\<close> gets priority \<open>i + 1\<close>.
\<close>

definition needs_priority :: "task_dict \<Rightarrow> bool" where
  "needs_priority t = (d_priority t = None \<or> d_priority t = Some 0)"

fun migrate_from :: "nat \<Rightarrow> task_dict list \<Rightarrow> task_dict list" where
  "migrate_from i [] = []"
| "migrate_from i (t # ts) =
     (if needs_priority t then t\<lparr>d_priority := Some (int i + 1)\<rparr> else t) # migrate_from (Suc i) ts"

definition load_data :: "tasks_doc disk_file \<Rightarrow> py_error + (tasks_doc \<times> tasks_doc disk_file)" where
  "load_data f =
     (case f of
        Absent \<Rightarrow> Inr (empty_doc, f)
      | Raises e \<Rightarrow> if caught_by_loader e then Inr (empty_doc, f) else Inl e
      | Unreadable \<Rightarrow> if caught_by_loader OSError then Inr (empty_doc, f) else Inl OSError
      | Holds data \<Rightarrow>
          let needs_save = (\<exists>t \<in> set (tasks data). needs_priority t);
              data' = data\<lparr>tasks := migrate_from 0 (tasks data)\<rparr>
          in if needs_save
             then (case write_file data' f of Inl e \<Rightarrow> Inl e | Inr f' \<Rightarrow> Inr (data', f'))
             else Inr (data', f))"






text \<open>\<^verbatim>\<open>get_tasks\<close>: the filter applies when \<^verbatim>\<open>status\<close> is given and not empty.\<close>

definition get_tasks ::
  "string option \<Rightarrow> tasks_doc disk_file \<Rightarrow> py_error + (Task list \<times> tasks_doc disk_file)" where
  "get_tasks st f =
     (case load_data f of
        Inl e \<Rightarrow> Inl e
      | Inr (data, f') \<Rightarrow>
          let ts = map from_dict (tasks data)
          in Inr (case st of
                    None \<Rightarrow> ts
                  | Some s \<Rightarrow> if s = [] then ts else filter (\<lambda>t. status t = s) ts, f'))"

text \<open>
  \<^verbatim>\<open>sorted(xs, key=lambda t: t.priority)[0]\<close> on a non-empty list: Python's sort is
  stable, as \<open>sort_key\<close> is.
\<close>

definition get_next_task ::
  "tasks_doc disk_file \<Rightarrow> py_error + (Task option \<times> tasks_doc disk_file)" where
  "get_next_task f =
     (case get_tasks (Some ''in_progress'') f of
        Inl e \<Rightarrow> Inl e
      | Inr (in_progress, f1) \<Rightarrow>
          if in_progress \<noteq> [] then Inr (Some (hd (sort_key priority in_progress)), f1)
          else (case get_tasks (Some ''pending'') f1 of
                  Inl e \<Rightarrow> Inl e
                | Inr (pending, f2) \<Rightarrow>
                    if pending \<noteq> [] then Inr (Some (hd (sort_key priority pending)), f2)
                    else Inr (None, f2)))"








section \<open>Checkpoint store (checkpoint.py)\<close>

text \<open>
  The checkpoint document. Keys that the code reads with \<^verbatim>\<open>.get\<close> may be missing and are
  options; \<^verbatim>\<open>last_verification\<close> is the record the session loop writes. The token counts
  of the session metrics are taken to be non-negative and below \<open>2 ^ 64\<close>.
\<close>

record session_metrics =
  tokens_in :: "64 word"
  tokens_out :: "64 word"
  cache_read :: "64 word"
  cache_creation :: "64 word"
  tools_used :: int
  session_start :: "rat option"
  session_duration :: int
  m_context_percent :: rat

record last_verification =
  lv_passed :: "bool option"
  lv_blocking_issues :: "string list"
  lv_warnings :: "string list"
  lv_retry_count :: "int option"
  lv_session :: "int option"

record checkpoint =
  cp_status :: "string option"
  cp_session :: "int option"
  cp_current_task :: "string option"
  cp_context_percent :: int
  cp_files_modified :: "string list"
  cp_decisions :: "string list"
  cp_next_steps :: "string list"
  cp_last_action :: "string option"
  cp_created_at :: string
  cp_updated_at :: string
  cp_session_started_at :: "string option"
  cp_session_metrics :: "session_metrics option"
  cp_last_verification :: "last_verification option"

text \<open>
  The directory \<^verbatim>\<open>.a1\<close>: the current document \<^verbatim>\<open>checkpoint.json\<close> and the archive
  directory \<^verbatim>\<open>checkpoints/\<close>, a map from file names to documents. The archive holds only
  what \<^verbatim>\<open>save\<close> wrote there and is never read; a write into it succeeds.
\<close>

record cp_store =
  checkpoint_file :: "checkpoint disk_file"
  checkpoints_dir :: "string \<rightharpoonup> checkpoint"

text \<open>\<^verbatim>\<open>_create_initial\<close>; \<open>now\<close> stands for \<^verbatim>\<open>datetime.now().isoformat()\<close>.\<close>

definition create_initial :: "string \<Rightarrow> checkpoint" where
  "create_initial now = \<lparr> cp_status = Some ''STARTING'', cp_session = Some 0,
     cp_current_task = None, cp_context_percent = 0, cp_files_modified = [],
     cp_decisions = [], cp_next_steps = [], cp_last_action = None,
     cp_created_at = now, cp_updated_at = now, cp_session_started_at = None,
     cp_session_metrics = None, cp_last_verification = None \<rparr>"

definition load :: "string \<Rightarrow> cp_store \<Rightarrow> py_error + checkpoint" where
  "load now st =
     (case checkpoint_file st of
        Absent \<Rightarrow> Inr (create_initial now)
      | Raises e \<Rightarrow> if caught_by_loader e then Inr (create_initial now) else Inl e
      | Unreadable \<Rightarrow> if caught_by_loader OSError then Inr (create_initial now) else Inl OSError
      | Holds cp \<Rightarrow> Inr cp)"

text \<open>The archive file \<^verbatim>\<open>f"session_{session:03d}.json"\<close>, \<^verbatim>\<open>session\<close> read with default 0.\<close>

definition archive_name :: "checkpoint \<Rightarrow> string" where
  "archive_name cp =
     ''session_'' @ format_03d (case cp_session cp of None \<Rightarrow> 0 | Some n \<Rightarrow> n) @ ''.json''"




section \<open>Validator reports (validator.py)\<close>

datatype ValidationResult = OK | FAIL | SKIP | ERROR

fun result_value :: "ValidationResult \<Rightarrow> string" where
  "result_value OK = ''ok''"
| "result_value FAIL = ''fail''"
| "result_value SKIP = ''skip''"
| "result_value ERROR = ''error''"

record ValidationReport =
  result :: ValidationResult
  message :: string
  details :: "string option"
  command :: "string option"

text \<open>\<^verbatim>\<open>", ".join(xs)\<close>.\<close>

fun join :: "string \<Rightarrow> string list \<Rightarrow> string" where
  "join sep [] = []"
| "join sep [x] = x"
| "join sep (x # y # ys) = x @ sep @ join sep (y # ys)"

text \<open>
  \<^verbatim>\<open>check_files_exist\<close>; \<open>path_exists fp\<close> stands for
  \<^verbatim>\<open>(self.project_dir / fp).exists()\<close>.
\<close>

definition check_files_exist :: "(string \<Rightarrow> bool) \<Rightarrow> string list \<Rightarrow> ValidationReport" where
  "check_files_exist path_exists file_paths =
     (if file_paths = [] then
        \<lparr> result = SKIP, message = ''No files to check'', details = None, command = None \<rparr>
      else
        let missing = filter (\<lambda>fp. \<not> path_exists fp) file_paths
        in if missing \<noteq> [] then
             \<lparr> result = FAIL,
               message = dec_digits (length missing) @ '' files missing: '' @ join '', '' (take 5 missing),
               details = None, command = None \<rparr>
           else
             \<lparr> result = OK, message = ''All '' @ dec_digits (length file_paths) @ '' files exist'',
               details = None, command = None \<rparr>)"

text \<open>\<^verbatim>\<open>get_progress\<close> of the task store, which verification consults.\<close>

definition get_progress ::
  "tasks_doc disk_file \<Rightarrow> py_error + ((nat \<times> nat) \<times> tasks_doc disk_file)" where
  "get_progress f =
     (case get_tasks None f of
        Inl e \<Rightarrow> Inl e
      | Inr (ts, f') \<Rightarrow> Inr ((length (filter (\<lambda>t. status t = ''done'') ts), length ts), f'))"

section \<open>Verification engine (loop.py)\<close>

text \<open>
  What one verification observes of the project: the reports of \<^verbatim>\<open>validator.run_all()\<close>
  in the order of the dictionary, which paths exist, and what \<^verbatim>\<open>validator.check_criteria\<close>
  answers (it runs the test suite, the linter or a file lookup).
\<close>

record observations =
  val_results :: "(string \<times> ValidationReport) list"
  path_exists :: "string \<Rightarrow> bool"
  check_criteria :: "string \<Rightarrow> ValidationReport"

text \<open>The persisted state the loop works on: the checkpoint store and the tasks document.\<close>

record world =
  store :: cp_store
  task_file :: "tasks_doc disk_file"

text \<open>
  The baseline: \<open>None\<close> while the attribute \<^verbatim>\<open>_baseline\<close> is not set, else the dictionary
  from check name to the recorded result value and message.
\<close>

record baseline_entry =
  b_result :: string
  b_message :: string

type_synonym baseline = "(string \<times> baseline_entry) list option"

definition capture_baseline :: "(string \<times> ValidationReport) list \<Rightarrow> baseline" where
  "capture_baseline rs =
     Some (map (\<lambda>(name, report). (name, \<lparr> b_result = result_value (result report),
                                            b_message = message report \<rparr>)) rs)"

definition is_new_issue :: "baseline \<Rightarrow> string \<Rightarrow> bool" where
  "is_new_issue bl check_name =
     (case bl of
        None \<Rightarrow> True
      | Some b \<Rightarrow>
          if b = [] then True
          else (case map_of b check_name of
                  None \<Rightarrow> True
                | Some e \<Rightarrow> if b_result e = ''fail'' then False else True))"

definition BLOCKING_CHECKS :: "string set" where
  "BLOCKING_CHECKS = {''syntax'', ''tests''}"

definition MAX_VERIFY_RETRIES :: int where
  "MAX_VERIFY_RETRIES = 3"

text \<open>
  Step 1 of \<^verbatim>\<open>_verify_session\<close>: the loop over the validator's reports, carrying
  \<^verbatim>\<open>blocking_issues\<close> and \<^verbatim>\<open>warnings\<close>. A string is the list of its characters, one
  \<open>char\<close> for each character of the Python string, so \<^verbatim>\<open>details[:200]\<close> is \<open>take 200\<close>.
\<close>

fun check_validation ::
  "baseline \<Rightarrow> (string \<times> ValidationReport) list \<Rightarrow> string list \<times> string list
     \<Rightarrow> string list \<times> string list" where
  "check_validation bl [] acc = acc"
| "check_validation bl ((name, report) # rest) (blocking, warnings) =
     (if result report \<noteq> FAIL then check_validation bl rest (blocking, warnings)
      else if \<not> is_new_issue bl name then
        check_validation bl rest
          (blocking, warnings @ [name @ '': '' @ message report @ '' (pre-existing, skipped)''])
      else if name \<in> BLOCKING_CHECKS then
        check_validation bl rest
          (blocking @ [name @ '': '' @ message report]
             @ (case details report of
                  None \<Rightarrow> []
                | Some d \<Rightarrow> if d = [] then [] else [''  '' @ take 200 d]),
           warnings)
      else check_validation bl rest (blocking, warnings @ [name @ '': '' @ message report]))"

text \<open>Step 2: the files the checkpoint declares modified must exist.\<close>

definition files_issues :: "observations \<Rightarrow> checkpoint \<Rightarrow> string list" where
  "files_issues obs cp =
     (if cp_files_modified cp = [] then []
      else let files_report = check_files_exist (path_exists obs) (cp_files_modified cp)
           in if result files_report = FAIL then [''files: '' @ message files_report] else [])"

text \<open>Step 3: the success criteria of the tasks that are done.\<close>

fun criteria_issues :: "observations \<Rightarrow> Task list \<Rightarrow> string list" where
  "criteria_issues obs [] = []"
| "criteria_issues obs (task # rest) =
     (case success_criteria task of
        None \<Rightarrow> criteria_issues obs rest
      | Some c \<Rightarrow>
          if c = [] then criteria_issues obs rest
          else let criteria_report = check_criteria obs c
               in if result criteria_report = FAIL
                  then (task_id task @ '' criteria: '' @ message criteria_report) # criteria_issues obs rest
                  else criteria_issues obs rest)"

text \<open>Step 4: a checkpoint that says COMPLETED needs every task done.\<close>

definition progress_issues :: "nat \<times> nat \<Rightarrow> string list" where
  "progress_issues p =
     (case p of (n_done, n_total) \<Rightarrow>
        if n_done < n_total
        then [''tasks: Only '' @ dec_digits n_done @ ''/'' @ dec_digits n_total
                @ '' done but checkpoint says COMPLETED'']
        else [])"

text \<open>
  Steps 5 and 6 and the returned dictionary (without the printed summary). The dash
  U+2014 of the warning is one character, written as the \<open>char\<close> \<open>0x97\<close> (its code in
  Windows-1252).
\<close>

record verification =
  passed :: bool
  force_accepted :: bool
  blocking_issues :: "string list"
  warnings :: "string list"
  retry_count :: int

definition em_dash :: string where
  "em_dash = [CHR 0x97]"

definition max_retries_warning :: string where
  "max_retries_warning =
     ''MAX RETRIES ('' @ dec_digits (nat MAX_VERIFY_RETRIES) @ '') reached '' @ em_dash
       @ '' accepting with issues''"

definition previous_retry :: "checkpoint \<Rightarrow> int" where
  "previous_retry cp =
     (case cp_last_verification cp of
        None \<Rightarrow> 0
      | Some last_ver \<Rightarrow>
          if \<not> (case lv_passed last_ver of None \<Rightarrow> True | Some b \<Rightarrow> b)
          then (case lv_retry_count last_ver of None \<Rightarrow> 0 | Some r \<Rightarrow> r)
          else 0)"

definition conclude :: "checkpoint \<Rightarrow> string list \<Rightarrow> string list \<Rightarrow> verification" where
  "conclude cp blocking warns =
     (let prev_retry = previous_retry cp;
          retry = (if blocking \<noteq> [] then prev_retry + 1 else 0);
          force_accept = (blocking \<noteq> [] \<and> retry \<ge> MAX_VERIFY_RETRIES);
          warns' = (if force_accept then warns @ [max_retries_warning] else warns)
      in \<lparr> passed = (length blocking = 0 \<or> force_accept), force_accepted = force_accept,
           blocking_issues = blocking, warnings = warns', retry_count = retry \<rparr>)"

definition verify_session ::
  "baseline \<Rightarrow> observations \<Rightarrow> string \<Rightarrow> world \<Rightarrow> py_error + (verification \<times> world)" where
  "verify_session bl obs now w =
     (let checked = check_validation bl (val_results obs) ([], []);
          blocking1 = fst checked;
          warns = snd checked
      in (case load now (store w) of
            Inl e \<Rightarrow> Inl e
          | Inr cp \<Rightarrow>
              let blocking2 = blocking1 @ files_issues obs cp
              in (case get_tasks (Some ''done'') (task_file w) of
                    Inl e \<Rightarrow> Inl e
                  | Inr (done_tasks, tf1) \<Rightarrow>
                      let blocking3 = blocking2 @ criteria_issues obs done_tasks
                      in if cp_status cp = Some ''COMPLETED'' then
                           (case get_progress tf1 of
                              Inl e \<Rightarrow> Inl e
                            | Inr (p, tf2) \<Rightarrow>
                                Inr (conclude cp (blocking3 @ progress_issues p) warns,
                                     w\<lparr>task_file := tf2\<rparr>))
                         else Inr (conclude cp blocking3 warns, w\<lparr>task_file := tf1\<rparr>))))"

section \<open>Session loop (loop.py)\<close>


definition record_failure :: "verification \<Rightarrow> checkpoint \<Rightarrow> checkpoint" where
  "record_failure v cp_data =
     cp_data\<lparr> cp_status := Some ''WORKING'',
              cp_last_verification := Some \<lparr> lv_passed = Some False,
                lv_blocking_issues = blocking_issues v, lv_warnings = warnings v,
                lv_retry_count = Some (retry_count v),
                lv_session = Some (case cp_session cp_data of None \<Rightarrow> 0 | Some n \<Rightarrow> n) \<rparr> \<rparr>"



section \<open>Context guard (loop.py)\<close>

text \<open>
  The guard state of \<^verbatim>\<open>SessionLoop\<close>. \<^verbatim>\<open>_context_percent\<close> is the float
  \<^verbatim>\<open>input_tokens / 200_000\<close>, compared with the float \<^verbatim>\<open>0.70\<close>. The token counts are
  natural numbers below \<open>2 ^ 64\<close>, far inside the range of doubles, so neither the division
  nor \<^verbatim>\<open>int(percent * 100)\<close> overflows. Division of integers is correctly rounded and
  rounding is monotone, and \<^verbatim>\<open>0.70\<close> is the rounding of 7/10, so for such a count the
  comparison holds exactly when the count is at least 140000, as it does for the
  rationals used here.
\<close>

record loop_state =
  metrics :: session_metrics
  context_overflow :: bool
  context_percent :: rat

definition CONTEXT_WINDOW_SIZE :: int where
  "CONTEXT_WINDOW_SIZE = 200000"

definition CONTEXT_THRESHOLD :: rat where
  "CONTEXT_THRESHOLD = 70 / 100"

text \<open>
  A line of the worker's stream, as far as the guard state goes:
  \<^item> \<open>RateLimitEvent usage\<close>: an object of type \<^verbatim>\<open>rate_limit_event\<close> with the pairs of
    its \<^verbatim>\<open>usage\<close> dictionary, keys pairwise different (empty when the key \<^verbatim>\<open>usage\<close> is
    missing); the counts are natural numbers below \<open>2 ^ 64\<close>;
  \<^item> \<open>AssistantToolUse\<close>: an assistant message whose first telling block is a tool use;
  \<^item> \<open>OtherEvent\<close>: a line that leaves the state alone: a blank line, text that is not
    JSON, an object of type \<^verbatim>\<open>system\<close>, \<^verbatim>\<open>user\<close> or \<^verbatim>\<open>result\<close> or of another type, an
    assistant message without a tool use before its first text;
  \<^item> \<open>Misshapen e\<close>: a line of JSON whose shape makes the parse raise \<open>e\<close>: a value that
    is not an object where the parse calls \<^verbatim>\<open>.get\<close> (\<^verbatim>\<open>AttributeError\<close>), or a count or
    a text of another type (\<^verbatim>\<open>TypeError\<close>). Nothing around the parse catches these.
\<close>

datatype stream_event =
    RateLimitEvent "(string \<times> 64 word) list"
  | AssistantToolUse
  | OtherEvent
  | Misshapen py_error

definition usage_get :: "(string \<times> 64 word) list \<Rightarrow> string \<Rightarrow> 64 word \<Rightarrow> 64 word" where
  "usage_get usage k d = (case map_of usage k of None \<Rightarrow> d | Some v \<Rightarrow> v)"

text \<open>
  \<^verbatim>\<open>_parse_stream_event\<close>: the new state, and whether the guard fired (the branch that
  sets \<^verbatim>\<open>_context_overflow\<close> and announces the threshold), or the exception.
\<close>

fun parse_stream_event :: "stream_event \<Rightarrow> loop_state \<Rightarrow> py_error + (loop_state \<times> bool)" where
  "parse_stream_event (RateLimitEvent usage) s =
     (if usage = [] then Inr (s, False)
      else
        let m = metrics s;
            m1 = m\<lparr> tokens_in := usage_get usage ''input_tokens'' (tokens_in m),
                     tokens_out := usage_get usage ''output_tokens'' (tokens_out m),
                     cache_read := usage_get usage ''cache_read_input_tokens'' (cache_read m),
                     cache_creation := usage_get usage ''cache_creation_input_tokens'' (cache_creation m) \<rparr>;
            input_tokens = tokens_in m1;
            pct = of_int (uint input_tokens) / of_int CONTEXT_WINDOW_SIZE;
            m2 = m1\<lparr>m_context_percent := pct\<rparr>;
            fire = (pct \<ge> CONTEXT_THRESHOLD \<and> \<not> context_overflow s)
        in Inr (s\<lparr> metrics := m2, context_percent := pct,
                    context_overflow := (if fire then True else context_overflow s) \<rparr>, fire))"
| "parse_stream_event AssistantToolUse s =
     Inr (s\<lparr>metrics := (metrics s)\<lparr>tools_used := tools_used (metrics s) + 1\<rparr>\<rparr>, False)"
| "parse_stream_event OtherEvent s = Inr (s, False)"
| "parse_stream_event (Misshapen e) s = Inl e"

text \<open>The reset at the start of \<^verbatim>\<open>_run_claude_max\<close>; \<open>t\<close> stands for \<^verbatim>\<open>time.time()\<close>.\<close>

definition reset_session :: "rat \<Rightarrow> loop_state \<Rightarrow> loop_state" where
  "reset_session t s =
     s\<lparr> context_overflow := False, context_percent := 0,
        metrics := \<lparr> tokens_in = 0, tokens_out = 0, cache_read = 0, cache_creation = 0,
                     tools_used = 0, session_start = Some t, session_duration = 0,
                     m_context_percent = 0 \<rparr> \<rparr>"

text \<open>
  The lines of one session, parsed one after the other: for each line, whether the guard
  fired on it and the context percentage after it, up to the line on which the parse
  raises, and that exception.
\<close>

fun run_events :: "stream_event list \<Rightarrow> loop_state \<Rightarrow> (bool \<times> rat) list \<times> py_error option" where
  "run_events [] s = ([], None)"
| "run_events (ev # evs) s =
     (case parse_stream_event ev s of
        Inl e \<Rightarrow> ([], Some e)
      | Inr (s', fired) \<Rightarrow>
          (case run_events evs s' of
             (entries, r) \<Rightarrow> ((fired, context_percent s') # entries, r)))"

text \<open>
  What a session's lines report, read off the lines alone: for each line the input token
  count of its usage report, a report without the key \<^verbatim>\<open>input_tokens\<close> repeating the count
  before it, and \<open>None\<close> for a line that is no usage report. A count reaches the
  threshold when its share of the context window is at least 0.70.
\<close>

fun reported_tokens :: "stream_event list \<Rightarrow> int \<Rightarrow> int option list" where
  "reported_tokens [] prev = []"
| "reported_tokens (RateLimitEvent usage # evs) prev =
     (if usage = [] then None # reported_tokens evs prev
      else (case map_of usage ''input_tokens'' of
              None \<Rightarrow> Some prev # reported_tokens evs prev
            | Some n \<Rightarrow> Some (uint n) # reported_tokens evs (uint n)))"
| "reported_tokens (ev # evs) prev = None # reported_tokens evs prev"

definition reaches_threshold :: "int \<Rightarrow> bool" where
  "reaches_threshold n \<longleftrightarrow> CONTEXT_THRESHOLD \<le> of_int n / of_int CONTEXT_WINDOW_SIZE"

fun well_shaped :: "stream_event \<Rightarrow> bool" where
  "well_shaped (Misshapen e) = False"
| "well_shaped _ = True"

section \<open>Notions used in the statements\<close>







section \<open>Example states\<close>





definition example_task :: "string \<Rightarrow> string \<Rightarrow> int \<Rightarrow> task_dict" where
  "example_task tid st p = \<lparr> d_id = tid, d_title = ''Example'', d_description = [],
     d_status = Some st, d_priority = Some p, d_created_at = ''2026-01-01T10:00:00'',
     d_completed_at = None, d_raw_thought = None, d_phase = None, d_success_criteria = None \<rparr>"

definition resume_doc :: tasks_doc where
  "resume_doc = \<lparr> raw_thoughts = [],
     tasks = [example_task ''task_001'' ''pending'' 1, example_task ''task_002'' ''pending'' 2,
              example_task ''task_003'' ''in_progress'' 5],
     next_id = 4 \<rparr>"



definition first_cp :: checkpoint where
  "first_cp = (create_initial ''2026-01-01T10:00:00'')
      \<lparr> cp_session := Some 1, cp_status := Some ''WORKING'' \<rparr>"





definition plain_report :: "ValidationResult \<Rightarrow> string \<Rightarrow> ValidationReport" where
  "plain_report r msg = \<lparr> result = r, message = msg, details = None, command = None \<rparr>"

definition tests_failed :: ValidationReport where
  "tests_failed = \<lparr> result = FAIL, message = ''Tests failed'', details = Some ''1 failed'',
     command = Some ''pytest'' \<rparr>"

definition lint_failed :: ValidationReport where
  "lint_failed = \<lparr> result = FAIL, message = ''Lint issues: 3'', details = Some ''E501'',
     command = Some ''ruff check'' \<rparr>"

definition observe :: "ValidationReport \<Rightarrow> ValidationReport \<Rightarrow> observations" where
  "observe tests_report lint_report =
     \<lparr> val_results = [(''syntax'', plain_report OK ''Syntax OK (4 files)''), (''tests'', tests_report),
                       (''lint'', lint_report), (''build'', plain_report SKIP ''No build config found'')],
       path_exists = (\<lambda>fp. True),
       check_criteria = (\<lambda>c. plain_report SKIP ''cannot verify automatically'') \<rparr>"

definition world_with :: "last_verification option \<Rightarrow> world" where
  "world_with lv =
     \<lparr> store = \<lparr> checkpoint_file = Holds (first_cp\<lparr>cp_last_verification := lv\<rparr>),
                 checkpoints_dir = Map.empty \<rparr>,
       task_file = Absent \<rparr>"

definition stored_verdict :: "bool \<Rightarrow> int \<Rightarrow> last_verification" where
  "stored_verdict p r = \<lparr> lv_passed = Some p, lv_blocking_issues = [''tests: Tests failed''],
     lv_warnings = [], lv_retry_count = Some r, lv_session = Some 1 \<rparr>"

definition lint_baseline :: baseline where
  "lint_baseline = capture_baseline (val_results (observe (plain_report OK ''All tests passed'') lint_failed))"





definition idle_metrics :: session_metrics where
  "idle_metrics = \<lparr> tokens_in = 0, tokens_out = 0, cache_read = 0, cache_creation = 0,
     tools_used = 0, session_start = None, session_duration = 0, m_context_percent = 0 \<rparr>"

text \<open>
  Usage reports of the worker, and a guard state left over from an earlier session.
\<close>

definition usage_report :: "64 word \<Rightarrow> stream_event" where
  "usage_report n = RateLimitEvent [(''input_tokens'', n), (''output_tokens'', 500)]"

text \<open>
  The lines of a session: two usage reports, a tool use, a third report and a report
  without an input count.
\<close>

definition session_lines :: "stream_event list" where
  "session_lines = [usage_report 100000, usage_report 140000, AssistantToolUse,
                    usage_report 190000, RateLimitEvent [(''output_tokens'', 900)]]"

definition overflowed_state :: loop_state where
  "overflowed_state = \<lparr> metrics = idle_metrics, context_overflow = True, context_percent = 9 / 10 \<rparr>"

section \<open>Loading the tasks document\<close>


lemma load_data_eq:
  "load_data f =
     (case f of
        Absent \<Rightarrow> Inr (empty_doc, f)
      | Raises e \<Rightarrow> if caught_by_loader e then Inr (empty_doc, f) else Inl e
      | Unreadable \<Rightarrow> Inr (empty_doc, f)
      | Holds data \<Rightarrow>
          let needs_save = (\<exists>t \<in> set (tasks data). needs_priority t);
              data' = data\<lparr>tasks := migrate_from 0 (tasks data)\<rparr>
          in Inr (data', if needs_save then Holds data' else f))"
  by (cases f) (simp_all add: load_data_def Let_def)

lemma map_d_id_migrate_from [simp]: "map d_id (migrate_from i ts) = map d_id ts"
  by (induction ts arbitrary: i) auto

lemma length_migrate_from [simp]: "length (migrate_from i ts) = length ts"
  by (induction ts arbitrary: i) auto

lemma migrate_from_unchanged:
  "\<forall>t \<in> set ts. \<not> needs_priority t \<Longrightarrow> migrate_from i ts = ts"
  by (induction ts arbitrary: i) auto

lemma migrate_from_settled:
  "\<forall>t \<in> set (migrate_from i ts). \<not> needs_priority t"
  by (induction ts arbitrary: i) (simp_all add: needs_priority_def)


lemma load_data_Inl: "load_data f = Inl e \<longleftrightarrow> f = Raises e \<and> \<not> caught_by_loader e"
  by (cases f) (auto simp: load_data_eq Let_def)



lemma load_data_again:
  assumes "load_data f = Inr (data, f')"
  shows "load_data f' = Inr (data, f')"
proof (cases f)
  case Absent
  with assms show ?thesis by (auto simp: load_data_eq)
next
  case (Raises e)
  with assms show ?thesis by (auto simp: load_data_eq split: if_splits)
next
  case Unreadable
  with assms show ?thesis by (auto simp: load_data_eq)
next
  case (Holds d)
  let ?ts = "migrate_from 0 (tasks d)"
  have settled: "\<forall>t \<in> set ?ts. \<not> needs_priority t"
    by (rule migrate_from_settled)
  have data: "data = d\<lparr>tasks := ?ts\<rparr>"
    using assms Holds by (auto simp: load_data_eq Let_def)
  show ?thesis
  proof (cases "\<exists>t \<in> set (tasks d). needs_priority t")
    case True
    then have "f' = Holds data"
      using assms Holds by (auto simp: load_data_eq Let_def)
    then show ?thesis
      using settled data by (simp add: load_data_eq Let_def migrate_from_unchanged)
  next
    case False
    then have same: "?ts = tasks d" by (simp add: migrate_from_unchanged)
    from False have "f' = f"
      using assms Holds by (auto simp: load_data_eq Let_def)
    then show ?thesis
      using assms by simp
  qed
qed






lemma get_tasks_filter:
  assumes "get_tasks None f = Inr (ts, f1)" and "s \<noteq> []"
  shows "get_tasks (Some s) f = Inr (filter (\<lambda>t. status t = s) ts, f1)"
    and "get_tasks (Some s) f1 = Inr (filter (\<lambda>t. status t = s) ts, f1)"
proof -
  obtain data where l: "load_data f = Inr (data, f1)" and ts: "ts = map from_dict (tasks data)"
    using assms(1) by (auto simp: get_tasks_def Let_def split: sum.splits)
  show "get_tasks (Some s) f = Inr (filter (\<lambda>t. status t = s) ts, f1)"
    using l ts assms(2) by (simp add: get_tasks_def)
  show "get_tasks (Some s) f1 = Inr (filter (\<lambda>t. status t = s) ts, f1)"
    using load_data_again [OF l] ts assms(2) by (simp add: get_tasks_def)
qed




section \<open>Updating a task that is not there\<close>





section \<open>The next task\<close>

lemma hd_sort_key_min:
  assumes "xs \<noteq> []"
  shows "hd (sort_key f xs) \<in> set xs \<and> (\<forall>y \<in> set xs. f (hd (sort_key f xs)) \<le> f y)"
proof -
  obtain a as where ys: "sort_key f xs = a # as"
    using assms by (cases "sort_key f xs") (auto dest: arg_cong [where f = length])
  have "set (a # as) = set xs"
    using ys set_sort [of f xs] by simp
  moreover have "sorted (map f (a # as))"
    using ys sorted_sort_key [of f xs] by simp
  ultimately show ?thesis
    using ys by auto
qed

text \<open>
  C7. With \<open>ts\<close> the tasks the store lists: if some task is \<^verbatim>\<open>in_progress\<close>,
  \<^verbatim>\<open>get_next_task\<close> returns an \<^verbatim>\<open>in_progress\<close> task whose priority number is lowest among
  the \<^verbatim>\<open>in_progress\<close> tasks, whatever the priorities of the pending tasks; otherwise, if
  some task is \<^verbatim>\<open>pending\<close>, it returns a pending task of lowest priority number;
  otherwise it returns nothing.
\<close>

theorem get_next_task_in_progress_first:
  assumes "get_tasks None f = Inr (ts, f1)"
  shows "((\<exists>t \<in> set ts. status t = ''in_progress'') \<longrightarrow>
            (\<exists>t. get_next_task f = Inr (Some t, f1) \<and> t \<in> set ts \<and> status t = ''in_progress''
               \<and> (\<forall>u \<in> set ts. status u = ''in_progress'' \<longrightarrow> priority t \<le> priority u)))
       \<and> ((\<forall>t \<in> set ts. status t \<noteq> ''in_progress'') \<and> (\<exists>t \<in> set ts. status t = ''pending'') \<longrightarrow>
            (\<exists>t. get_next_task f = Inr (Some t, f1) \<and> t \<in> set ts \<and> status t = ''pending''
               \<and> (\<forall>u \<in> set ts. status u = ''pending'' \<longrightarrow> priority t \<le> priority u)))
       \<and> ((\<forall>t \<in> set ts. status t \<noteq> ''in_progress'' \<and> status t \<noteq> ''pending'') \<longrightarrow>
            get_next_task f = Inr (None, f1))"
proof -
  let ?ip = "filter (\<lambda>t. status t = ''in_progress'') ts"
  let ?pe = "filter (\<lambda>t. status t = ''pending'') ts"
  have ip: "get_tasks (Some ''in_progress'') f = Inr (?ip, f1)"
    using get_tasks_filter(1) [OF assms] by simp
  have pe: "get_tasks (Some ''pending'') f1 = Inr (?pe, f1)"
    using get_tasks_filter(2) [OF assms] by simp
  have a: "get_next_task f = Inr (Some (hd (sort_key priority ?ip)), f1)" if "?ip \<noteq> []"
    using that ip by (simp add: get_next_task_def)
  have b: "get_next_task f = Inr (Some (hd (sort_key priority ?pe)), f1)" if "?ip = []" "?pe \<noteq> []"
    using that ip pe by (simp add: get_next_task_def)
  have c: "get_next_task f = Inr (None, f1)" if "?ip = []" "?pe = []"
    using that ip pe by (simp add: get_next_task_def)
  have 1: "(\<exists>t \<in> set ts. status t = ''in_progress'') \<longrightarrow>
            (\<exists>t. get_next_task f = Inr (Some t, f1) \<and> t \<in> set ts \<and> status t = ''in_progress''
               \<and> (\<forall>u \<in> set ts. status u = ''in_progress'' \<longrightarrow> priority t \<le> priority u))"
  proof
    assume "\<exists>t \<in> set ts. status t = ''in_progress''"
    then have ne: "?ip \<noteq> []" by (auto simp: filter_empty_conv)
    from hd_sort_key_min [OF ne, of priority] a [OF ne]
    show "\<exists>t. get_next_task f = Inr (Some t, f1) \<and> t \<in> set ts \<and> status t = ''in_progress''
               \<and> (\<forall>u \<in> set ts. status u = ''in_progress'' \<longrightarrow> priority t \<le> priority u)"
      by auto
  qed
  have 2: "(\<forall>t \<in> set ts. status t \<noteq> ''in_progress'') \<and> (\<exists>t \<in> set ts. status t = ''pending'') \<longrightarrow>
            (\<exists>t. get_next_task f = Inr (Some t, f1) \<and> t \<in> set ts \<and> status t = ''pending''
               \<and> (\<forall>u \<in> set ts. status u = ''pending'' \<longrightarrow> priority t \<le> priority u))"
  proof
    assume h: "(\<forall>t \<in> set ts. status t \<noteq> ''in_progress'') \<and> (\<exists>t \<in> set ts. status t = ''pending'')"
    then have e: "?ip = []" by (auto simp: filter_empty_conv)
    from h have ne: "?pe \<noteq> []" by (auto simp: filter_empty_conv)
    from hd_sort_key_min [OF ne, of priority] b [OF e ne]
    show "\<exists>t. get_next_task f = Inr (Some t, f1) \<and> t \<in> set ts \<and> status t = ''pending''
               \<and> (\<forall>u \<in> set ts. status u = ''pending'' \<longrightarrow> priority t \<le> priority u)"
      by auto
  qed
  have 3: "(\<forall>t \<in> set ts. status t \<noteq> ''in_progress'' \<and> status t \<noteq> ''pending'') \<longrightarrow>
            get_next_task f = Inr (None, f1)"
  proof
    assume h: "\<forall>t \<in> set ts. status t \<noteq> ''in_progress'' \<and> status t \<noteq> ''pending''"
    then have "?ip = []" "?pe = []" by (auto simp: filter_empty_conv)
    then show "get_next_task f = Inr (None, f1)" by (rule c)
  qed
  from 1 2 3 show ?thesis by blast
qed

text \<open>
  One \<^verbatim>\<open>in_progress\<close> task at priority 5 and two pending tasks at priorities 1 and 2: the
  \<^verbatim>\<open>in_progress\<close> task is returned.
\<close>

theorem get_next_task_in_progress_first_witness:
  "get_tasks None (Holds resume_doc) = Inr (map from_dict (tasks resume_doc), Holds resume_doc)
   \<and> get_next_task (Holds resume_doc)
       = Inr (Some (from_dict (example_task ''task_003'' ''in_progress'' 5)), Holds resume_doc)"
proof -
  let ?ts = "map from_dict (tasks resume_doc)"
  have g: "get_tasks None (Holds resume_doc) = Inr (?ts, Holds resume_doc)"
    by (simp add: get_tasks_def load_data_eq Let_def resume_doc_def example_task_def
        needs_priority_def)
  have "\<exists>t \<in> set ?ts. status t = ''in_progress''"
    by (simp add: resume_doc_def example_task_def from_dict_def)
  with get_next_task_in_progress_first [OF g]
  obtain t where t: "get_next_task (Holds resume_doc) = Inr (Some t, Holds resume_doc)"
    "t \<in> set ?ts" "status t = ''in_progress''"
    by blast
  from t(2,3) have "t = from_dict (example_task ''task_003'' ''in_progress'' 5)"
    by (auto simp: resume_doc_def example_task_def from_dict_def)
  with t(1) g show ?thesis by simp
qed

section \<open>Ids and priorities of added tasks\<close>





















section \<open>Reordering\<close>









section \<open>Saving and loading the checkpoint\<close>

lemma archive_name_updated_at [simp]:
  "archive_name (cp\<lparr>cp_updated_at := now\<rparr>) = archive_name cp"
  by (simp add: archive_name_def)





text \<open>
  A missing file, text that is not JSON and a file the system cannot read give the
  initial checkpoint.
\<close>

lemma load_default:
  "checkpoint_file st = Absent \<or> checkpoint_file st = Raises JSONDecodeError
     \<or> checkpoint_file st = Raises OSError \<or> checkpoint_file st = Unreadable
   \<Longrightarrow> load now st = Inr (create_initial now)"
  by (auto simp: load_def)

text \<open>
  C9. A checkpoint file whose bytes are not text in the file's encoding makes \<^verbatim>\<open>load\<close>
  raise: the read raises \<^verbatim>\<open>UnicodeDecodeError\<close>, which the handler of \<^verbatim>\<open>load\<close> does not
  catch, so no initial checkpoint is returned for this unparsable document.
\<close>

theorem load_undecodable_raises:
  "load now (st\<lparr>checkpoint_file := Raises UnicodeDecodeError\<rparr>) = Inl UnicodeDecodeError"
  by (simp add: load_def)




section \<open>Verification\<close>

lemma conclude_simps:
  "blocking_issues (conclude cp b ws) = b"
  "retry_count (conclude cp b ws) = (if b \<noteq> [] then previous_retry cp + 1 else 0)"
  "force_accepted (conclude cp b ws) = (b \<noteq> [] \<and> MAX_VERIFY_RETRIES \<le> previous_retry cp + 1)"
  "passed (conclude cp b ws) = (b = [] \<or> MAX_VERIFY_RETRIES \<le> previous_retry cp + 1)"
  "warnings (conclude cp b ws) =
     (if b \<noteq> [] \<and> MAX_VERIFY_RETRIES \<le> previous_retry cp + 1 then ws @ [max_retries_warning] else ws)"
  by (auto simp: conclude_def Let_def)

lemma check_validation_fst_filter:
  assumes "\<not> is_new_issue bl name"
  shows "fst acc = fst acc' \<Longrightarrow>
     fst (check_validation bl rs acc) = fst (check_validation bl (filter (\<lambda>(n, r). n \<noteq> name) rs) acc')"
proof (induction rs arbitrary: acc acc')
  case Nil
  then show ?case by simp
next
  case (Cons x rs)
  obtain n r where x: "x = (n, r)" by (cases x)
  obtain b ws where acc: "acc = (b, ws)" by (cases acc)
  obtain ws' where acc': "acc' = (b, ws')" using Cons.prems acc by (cases acc') simp
  show ?case
  proof (cases "n = name")
    case True
    then show ?thesis
      using assms x acc acc' Cons.IH [of "(b, ws)" "(b, ws')"]
        Cons.IH [of "(b, ws @ [name @ '': '' @ message r @ '' (pre-existing, skipped)''])" "(b, ws')"]
      by simp
  next
    case False
    then show ?thesis
      using x acc acc' by (auto intro!: Cons.IH)
  qed
qed

lemma check_validation_mono:
  "set (fst acc) \<subseteq> set (fst (check_validation bl rs acc))
   \<and> set (snd acc) \<subseteq> set (snd (check_validation bl rs acc))"
proof (induction bl rs acc rule: check_validation.induct)
  case (1 bl acc)
  then show ?case by simp
next
  case (2 bl name report rest blocking warnings)
  then show ?case by (auto split: if_splits)
qed

lemma preexisting_in_warnings:
  assumes "(name, report) \<in> set rs" "result report = FAIL" "\<not> is_new_issue bl name"
  shows "name @ '': '' @ message report @ '' (pre-existing, skipped)''
           \<in> set (snd (check_validation bl rs acc))"
  using assms
proof (induction bl rs acc rule: check_validation.induct)
  case (1 bl acc)
  then show ?case by simp
next
  case (2 bl n r rest blocking warnings)
  show ?case
  proof (cases "(name, report) = (n, r)")
    case True
    have "name @ '': '' @ message report @ '' (pre-existing, skipped)''
        \<in> set (snd (blocking, warnings @ [name @ '': '' @ message report @ '' (pre-existing, skipped)'']))"
      by simp
    then have "name @ '': '' @ message report @ '' (pre-existing, skipped)''
        \<in> set (snd (check_validation bl rest
             (blocking, warnings @ [name @ '': '' @ message report @ '' (pre-existing, skipped)''])))"
      using check_validation_mono by blast
    then show ?thesis
      using True "2.prems" by simp
  next
    case False
    then have "(name, report) \<in> set rest" using "2.prems" by auto
    then show ?thesis
      using 2 by (auto split: if_splits)
  qed
qed


lemma criteria_issues_cong:
  "check_criteria obs' = check_criteria obs \<Longrightarrow> criteria_issues obs' ts = criteria_issues obs ts"
  by (induction ts) (auto simp: Let_def split: option.splits)

lemma verify_session_Inr:
  assumes "verify_session bl obs now w = Inr (v, w')"
  shows "\<exists>cp extra. load now (store w) = Inr cp
     \<and> v = conclude cp (fst (check_validation bl (val_results obs) ([], [])) @ extra)
               (snd (check_validation bl (val_results obs) ([], [])))
     \<and> store w' = store w"
  using assms
  by (auto simp: verify_session_def Let_def split: sum.splits if_splits prod.splits)

lemma is_new_issue_recorded_fail:
  "map_of b name = Some e \<Longrightarrow> b_result e = ''fail'' \<Longrightarrow> \<not> is_new_issue (Some b) name"
  by (auto simp: is_new_issue_def)

lemma verify_lint_example:
  "verify_session lint_baseline (observe (plain_report OK ''All tests passed'') lint_failed)
       ''2026-01-01T11:00:00'' (world_with None)
     = Inr (\<lparr> passed = True, force_accepted = False, blocking_issues = [],
              warnings = [''lint: Lint issues: 3 (pre-existing, skipped)''], retry_count = 0 \<rparr>,
            world_with None)"
  by (simp add: verify_session_def Let_def lint_baseline_def capture_baseline_def observe_def
      plain_report_def lint_failed_def is_new_issue_def world_with_def load_def files_issues_def
      first_cp_def create_initial_def get_tasks_def load_data_eq empty_doc_def conclude_def
      previous_retry_def)

lemma verify_tests_example:
  "verify_session None (observe tests_failed (plain_report OK ''Lint passed''))
       ''2026-01-01T11:00:00'' (world_with lv)
     = Inr (conclude (first_cp\<lparr>cp_last_verification := lv\<rparr>)
              [''tests: Tests failed'', ''  1 failed''] [], world_with lv)"
  by (simp add: verify_session_def Let_def observe_def
      plain_report_def tests_failed_def is_new_issue_def world_with_def load_def files_issues_def
      first_cp_def create_initial_def get_tasks_def load_data_eq empty_doc_def BLOCKING_CHECKS_def)

text \<open>
  C2. A check that fails in the session's validation and that the baseline recorded as
  failing appears in the warnings, marked pre-existing, and contributes nothing to the
  blocking issues: verification without that check's report gives the same blocking
  issues, the same verdict and the same retry counter.
\<close>

theorem preexisting_failure_does_not_block:
  assumes "(name, rep) \<in> set (val_results obs)" and "result rep = FAIL"
    and "map_of b name = Some e" and "b_result e = ''fail''"
    and "verify_session (Some b) obs now w = Inr (v, w')"
  shows "name @ '': '' @ message rep @ '' (pre-existing, skipped)'' \<in> set (warnings v)
     \<and> (\<exists>v0. verify_session (Some b)
                 (obs\<lparr>val_results := filter (\<lambda>(n, r). n \<noteq> name) (val_results obs)\<rparr>) now w
               = Inr (v0, w')
            \<and> blocking_issues v0 = blocking_issues v \<and> passed v0 = passed v
            \<and> retry_count v0 = retry_count v)"
proof -
  let ?bl = "Some b"
  let ?obs' = "obs\<lparr>val_results := filter (\<lambda>(n, r). n \<noteq> name) (val_results obs)\<rparr>"
  have old: "\<not> is_new_issue ?bl name"
    using assms(3,4) by (rule is_new_issue_recorded_fail)
  from verify_session_Inr [OF assms(5)] obtain cp extra where
    v: "v = conclude cp (fst (check_validation ?bl (val_results obs) ([], [])) @ extra)
               (snd (check_validation ?bl (val_results obs) ([], [])))"
    by blast
  have "name @ '': '' @ message rep @ '' (pre-existing, skipped)''
       \<in> set (snd (check_validation ?bl (val_results obs) ([], [])))"
    using preexisting_in_warnings [OF assms(1,2) old] .
  then have 1: "name @ '': '' @ message rep @ '' (pre-existing, skipped)'' \<in> set (warnings v)"
    unfolding v by (simp add: conclude_simps)
  have f: "fst (check_validation ?bl (val_results ?obs') ([], []))
         = fst (check_validation ?bl (val_results obs) ([], []))"
    using check_validation_fst_filter [OF old, of "([], [])" "([], [])" "val_results obs"] by simp
  have c: "criteria_issues ?obs' ts = criteria_issues obs ts" for ts
    by (rule criteria_issues_cong) simp
  have fi: "files_issues ?obs' cp = files_issues obs cp" for cp
    by (simp add: files_issues_def)
  have 2: "\<exists>v0. verify_session ?bl ?obs' now w = Inr (v0, w')
            \<and> blocking_issues v0 = blocking_issues v \<and> passed v0 = passed v
            \<and> retry_count v0 = retry_count v"
    using assms(5) unfolding verify_session_def Let_def f c fi
    by (auto simp: conclude_simps split: sum.splits prod.splits if_splits)
  from 1 2 show ?thesis by blast
qed

text \<open>
  A baseline with \<^verbatim>\<open>lint\<close> failing and a session in which \<^verbatim>\<open>lint\<close> fails again: no
  blocking issue, one warning marked pre-existing.
\<close>

theorem preexisting_failure_does_not_block_witness:
  "(''lint'', lint_failed) \<in> set (val_results (observe (plain_report OK ''All tests passed'') lint_failed))
   \<and> result lint_failed = FAIL
   \<and> map_of (the lint_baseline) ''lint'' = Some \<lparr> b_result = ''fail'', b_message = ''Lint issues: 3'' \<rparr>
   \<and> verify_session (Some (the lint_baseline)) (observe (plain_report OK ''All tests passed'') lint_failed)
         ''2026-01-01T11:00:00'' (world_with None)
       = Inr (\<lparr> passed = True, force_accepted = False, blocking_issues = [],
                warnings = [''lint: Lint issues: 3 (pre-existing, skipped)''], retry_count = 0 \<rparr>,
              world_with None)
   \<and> ''lint: Lint issues: 3 (pre-existing, skipped)''
        \<in> set (warnings \<lparr> passed = True, force_accepted = False, blocking_issues = [],
              warnings = [''lint: Lint issues: 3 (pre-existing, skipped)''], retry_count = 0 \<rparr>)"
proof -
  let ?obs = "observe (plain_report OK ''All tests passed'') lint_failed"
  let ?e = "\<lparr> b_result = ''fail'', b_message = ''Lint issues: 3'' \<rparr>"
  have a: "(''lint'', lint_failed) \<in> set (val_results ?obs)"
    by (simp add: observe_def)
  have b: "result lint_failed = FAIL"
    by (simp add: lint_failed_def)
  have s: "lint_baseline = Some (the lint_baseline)"
    by (simp add: lint_baseline_def capture_baseline_def)
  have c: "map_of (the lint_baseline) ''lint'' = Some ?e"
    by (simp add: lint_baseline_def capture_baseline_def observe_def lint_failed_def plain_report_def)
  have d: "b_result ?e = ''fail''" by simp
  have e: "verify_session (Some (the lint_baseline)) ?obs ''2026-01-01T11:00:00'' (world_with None)
     = Inr (\<lparr> passed = True, force_accepted = False, blocking_issues = [],
              warnings = [''lint: Lint issues: 3 (pre-existing, skipped)''], retry_count = 0 \<rparr>,
            world_with None)"
    using verify_lint_example s by simp
  from preexisting_failure_does_not_block [OF a b c d e] a b c e
  show ?thesis by (simp add: lint_failed_def)
qed

text \<open>
  C4 (amended). The retry counter of a verification is the previous counter plus one when
  the attempt has blocking issues and zero when it has none. The previous counter is the
  \<^verbatim>\<open>retry_count\<close> of the checkpoint's \<^verbatim>\<open>last_verification\<close> when that record is marked
  not passed, and zero when the record is missing or not marked failed. The record the
  loop writes after a failed verification is read back as that verification's counter.
\<close>

theorem verify_session_retry_count:
  assumes "verify_session bl obs now w = Inr (v, w')"
  shows "\<exists>cp. load now (store w) = Inr cp
     \<and> retry_count v = (if blocking_issues v \<noteq> [] then previous_retry cp + 1 else 0)
     \<and> previous_retry cp =
         (case cp_last_verification cp of
            None \<Rightarrow> 0
          | Some lv \<Rightarrow> if lv_passed lv = Some False
                       then (case lv_retry_count lv of None \<Rightarrow> 0 | Some r \<Rightarrow> r) else 0)
     \<and> previous_retry (record_failure v cp) = retry_count v"
proof -
  from verify_session_Inr [OF assms] obtain cp b ws where
    l: "load now (store w) = Inr cp" and v: "v = conclude cp b ws"
    by blast
  have 1: "retry_count v = (if blocking_issues v \<noteq> [] then previous_retry cp + 1 else 0)"
    unfolding v by (simp add: conclude_simps)
  have 2: "previous_retry cp =
         (case cp_last_verification cp of
            None \<Rightarrow> 0
          | Some lv \<Rightarrow> if lv_passed lv = Some False
                       then (case lv_retry_count lv of None \<Rightarrow> 0 | Some r \<Rightarrow> r) else 0)"
    by (auto simp: previous_retry_def split: option.splits)
  have 3: "previous_retry (record_failure v cp) = retry_count v"
    by (simp add: previous_retry_def record_failure_def)
  from l 1 2 3 show ?thesis by blast
qed

theorem verify_session_retry_count_witness:
  "verify_session None (observe tests_failed (plain_report OK ''Lint passed''))
       ''2026-01-01T11:00:00'' (world_with (Some (stored_verdict False 1)))
     = Inr (\<lparr> passed = False, force_accepted = False,
              blocking_issues = [''tests: Tests failed'', ''  1 failed''], warnings = [],
              retry_count = 2 \<rparr>, world_with (Some (stored_verdict False 1)))
   \<and> load ''2026-01-01T11:00:00'' (store (world_with (Some (stored_verdict False 1))))
       = Inr (first_cp\<lparr>cp_last_verification := Some (stored_verdict False 1)\<rparr>)
   \<and> previous_retry (first_cp\<lparr>cp_last_verification := Some (stored_verdict False 1)\<rparr>) = 1"
proof -
  let ?w = "world_with (Some (stored_verdict False 1))"
  let ?v = "\<lparr> passed = False, force_accepted = False,
              blocking_issues = [''tests: Tests failed'', ''  1 failed''], warnings = [],
              retry_count = 2 \<rparr>"
  have e: "verify_session None (observe tests_failed (plain_report OK ''Lint passed''))
       ''2026-01-01T11:00:00'' ?w = Inr (?v, ?w)"
    unfolding verify_tests_example
    by (simp add: conclude_def previous_retry_def stored_verdict_def Let_def MAX_VERIFY_RETRIES_def)
  have l: "load ''2026-01-01T11:00:00'' (store ?w)
       = Inr (first_cp\<lparr>cp_last_verification := Some (stored_verdict False 1)\<rparr>)"
    by (simp add: load_def world_with_def)
  from verify_session_retry_count [OF e] e l
  show ?thesis by auto
qed

text \<open>
  The claim as first stated, that the stored counter is always the one incremented,
  fails on a checkpoint whose record says passed with counter 2: a failing attempt gets
  counter 1, not 3.
\<close>

theorem verify_session_retry_count_counterexample:
  "verify_session None (observe tests_failed (plain_report OK ''Lint passed''))
       ''2026-01-01T11:00:00'' (world_with (Some (stored_verdict True 2)))
     = Inr (\<lparr> passed = False, force_accepted = False,
              blocking_issues = [''tests: Tests failed'', ''  1 failed''], warnings = [],
              retry_count = 1 \<rparr>, world_with (Some (stored_verdict True 2)))"
  unfolding verify_tests_example
  by (simp add: conclude_def previous_retry_def stored_verdict_def Let_def MAX_VERIFY_RETRIES_def)

section \<open>Force-accept\<close>







lemma max_retries_warning_text:
  "max_retries_warning = ''MAX RETRIES (3) reached '' @ em_dash @ '' accepting with issues''"
  by (simp add: max_retries_warning_def MAX_VERIFY_RETRIES_def dec_digits.simps digit_char_def)








section \<open>The context guard\<close>

lemma reaches_threshold_iff: "reaches_threshold n \<longleftrightarrow> 140000 \<le> n"
  by (simp add: reaches_threshold_def CONTEXT_THRESHOLD_def CONTEXT_WINDOW_SIZE_def field_simps)

lemma parse_well_shaped:
  assumes "well_shaped ev"
  shows "\<exists>s' r. parse_stream_event ev s
             = Inr (s', \<not> context_overflow s \<and> (\<exists>n. r = Some n \<and> reaches_threshold n))
     \<and> (\<forall>evs. reported_tokens (ev # evs) (uint (tokens_in (metrics s)))
                = r # reported_tokens evs (uint (tokens_in (metrics s'))))
     \<and> (context_overflow s' \<longleftrightarrow> context_overflow s \<or> (\<exists>n. r = Some n \<and> reaches_threshold n))
     \<and> (\<forall>n. r = Some n \<longrightarrow> context_percent s' = of_int n / of_int CONTEXT_WINDOW_SIZE)"
proof (cases ev)
  case (RateLimitEvent usage)
  show ?thesis
  proof (cases "usage = []")
    case True
    with RateLimitEvent show ?thesis by simp
  next
    case False
    show ?thesis
    proof (cases "map_of usage ''input_tokens''")
      case None
      with RateLimitEvent False show ?thesis
        by (auto simp: Let_def usage_get_def reaches_threshold_def)
    next
      case (Some v)
      with RateLimitEvent False show ?thesis
        by (auto simp: Let_def usage_get_def reaches_threshold_def)
    qed
  qed
next
  case AssistantToolUse
  then show ?thesis by simp
next
  case OtherEvent
  then show ?thesis by simp
next
  case (Misshapen e)
  with assms show ?thesis by simp
qed

lemma run_events_well_shaped:
  assumes "\<forall>ev \<in> set evs. well_shaped ev"
  shows "\<exists>entries. run_events evs s = (entries, None) \<and> length entries = length evs
     \<and> (\<forall>i<length evs.
           (fst (entries ! i) \<longleftrightarrow>
              \<not> context_overflow s
              \<and> (\<exists>n. reported_tokens evs (uint (tokens_in (metrics s))) ! i = Some n \<and> reaches_threshold n)
              \<and> (\<forall>j<i. \<forall>m. reported_tokens evs (uint (tokens_in (metrics s))) ! j = Some m
                           \<longrightarrow> \<not> reaches_threshold m))
         \<and> (\<forall>n. reported_tokens evs (uint (tokens_in (metrics s))) ! i = Some n
                 \<longrightarrow> snd (entries ! i) = of_int n / of_int CONTEXT_WINDOW_SIZE))
     \<and> length (filter fst entries)
         = (if \<not> context_overflow s
               \<and> (\<exists>n. Some n \<in> set (reported_tokens evs (uint (tokens_in (metrics s)))) \<and> reaches_threshold n)
            then 1 else 0)"
  using assms
proof (induction evs arbitrary: s)
  case Nil
  then show ?case by simp
next
  case (Cons ev evs)
  from Cons.prems have ws: "well_shaped ev" and rest: "\<forall>ev \<in> set evs. well_shaped ev"
    by simp_all
  let ?p = "uint (tokens_in (metrics s))"
  from parse_well_shaped [OF ws, of s]
  obtain s' r where
    step: "parse_stream_event ev s
             = Inr (s', \<not> context_overflow s \<and> (\<exists>n. r = Some n \<and> reaches_threshold n))"
    and toks: "reported_tokens (ev # evs) ?p = r # reported_tokens evs (uint (tokens_in (metrics s')))"
    and ov: "context_overflow s' \<longleftrightarrow> context_overflow s \<or> (\<exists>n. r = Some n \<and> reaches_threshold n)"
    and pct: "\<forall>n. r = Some n \<longrightarrow> context_percent s' = of_int n / of_int CONTEXT_WINDOW_SIZE"
    by blast
  let ?toks' = "reported_tokens evs (uint (tokens_in (metrics s')))"
  let ?fired = "\<not> context_overflow s \<and> (\<exists>n. r = Some n \<and> reaches_threshold n)"
  from Cons.IH [OF rest, of s']
  obtain entries where
    run: "run_events evs s' = (entries, None)"
    and len: "length entries = length evs"
    and each: "\<forall>i<length evs.
           (fst (entries ! i) \<longleftrightarrow>
              \<not> context_overflow s'
              \<and> (\<exists>n. ?toks' ! i = Some n \<and> reaches_threshold n)
              \<and> (\<forall>j<i. \<forall>m. ?toks' ! j = Some m \<longrightarrow> \<not> reaches_threshold m))
         \<and> (\<forall>n. ?toks' ! i = Some n \<longrightarrow> snd (entries ! i) = of_int n / of_int CONTEXT_WINDOW_SIZE)"
    and cnt: "length (filter fst entries)
         = (if \<not> context_overflow s' \<and> (\<exists>n. Some n \<in> set ?toks' \<and> reaches_threshold n) then 1 else 0)"
    by blast
  let ?entries = "(?fired, context_percent s') # entries"
  have r1: "run_events (ev # evs) s = (?entries, None)"
    using step run by simp
  have r2: "length ?entries = length (ev # evs)"
    using len by simp
  have r3: "(fst (?entries ! i) \<longleftrightarrow>
              \<not> context_overflow s
              \<and> (\<exists>n. (r # ?toks') ! i = Some n \<and> reaches_threshold n)
              \<and> (\<forall>j<i. \<forall>m. (r # ?toks') ! j = Some m \<longrightarrow> \<not> reaches_threshold m))
         \<and> (\<forall>n. (r # ?toks') ! i = Some n \<longrightarrow> snd (?entries ! i) = of_int n / of_int CONTEXT_WINDOW_SIZE)"
    if "i < length (ev # evs)" for i
  proof (cases i)
    case 0
    then show ?thesis using pct by simp
  next
    case (Suc k)
    then have k: "k < length evs" using that by simp
    have all: "(\<forall>j<Suc k. \<forall>m. (r # ?toks') ! j = Some m \<longrightarrow> \<not> reaches_threshold m)
        \<longleftrightarrow> (\<forall>m. r = Some m \<longrightarrow> \<not> reaches_threshold m)
            \<and> (\<forall>j<k. \<forall>m. ?toks' ! j = Some m \<longrightarrow> \<not> reaches_threshold m)"
      by (simp add: All_less_Suc2)
    from each k have
      a: "fst (entries ! k) \<longleftrightarrow>
              \<not> context_overflow s'
              \<and> (\<exists>n. ?toks' ! k = Some n \<and> reaches_threshold n)
              \<and> (\<forall>j<k. \<forall>m. ?toks' ! j = Some m \<longrightarrow> \<not> reaches_threshold m)"
      and b: "\<forall>n. ?toks' ! k = Some n \<longrightarrow> snd (entries ! k) = of_int n / of_int CONTEXT_WINDOW_SIZE"
      by blast+
    have "fst (?entries ! i) \<longleftrightarrow>
              \<not> context_overflow s
              \<and> (\<exists>n. (r # ?toks') ! i = Some n \<and> reaches_threshold n)
              \<and> (\<forall>j<i. \<forall>m. (r # ?toks') ! j = Some m \<longrightarrow> \<not> reaches_threshold m)"
      unfolding Suc all using a ov by auto
    moreover have "\<forall>n. (r # ?toks') ! i = Some n \<longrightarrow> snd (?entries ! i) = of_int n / of_int CONTEXT_WINDOW_SIZE"
      using Suc b by simp
    ultimately show ?thesis by blast
  qed
  have r4: "length (filter fst ?entries)
         = (if \<not> context_overflow s \<and> (\<exists>n. Some n \<in> set (r # ?toks') \<and> reaches_threshold n) then 1 else 0)"
  proof -
    define hit where "hit \<longleftrightarrow> (\<exists>n. r = Some n \<and> reaches_threshold n)"
    define later_hit where "later_hit \<longleftrightarrow> (\<exists>n. Some n \<in> set ?toks' \<and> reaches_threshold n)"
    have any: "(\<exists>n. Some n \<in> set (r # ?toks') \<and> reaches_threshold n) \<longleftrightarrow> hit \<or> later_hit"
      unfolding hit_def later_hit_def by auto
    have ov': "context_overflow s' \<longleftrightarrow> context_overflow s \<or> hit"
      using ov unfolding hit_def .
    have cnt': "length (filter fst entries) = (if \<not> context_overflow s' \<and> later_hit then 1 else 0)"
      using cnt unfolding later_hit_def .
    have "length (filter fst ((\<not> context_overflow s \<and> hit, context_percent s') # entries))
        = (if \<not> context_overflow s \<and> (hit \<or> later_hit) then 1 else 0)"
      using ov' cnt' by (cases hit; cases later_hit; cases "context_overflow s") simp_all
    then show ?thesis
      unfolding any unfolding hit_def .
  qed
  from r1 r2 r3 r4 show ?case
    unfolding toks by blast
qed

text \<open>
  A line whose shape the parse does not expect ends the reading of the stream with its
  exception.
\<close>

lemma run_events_misshapen: "run_events (Misshapen e # evs) s = ([], Some e)"
  by simp

text \<open>
  C3. In a session whose lines are well shaped, read from the reset that starts it,
  whatever state the session before left: every line is parsed without an exception;
  the guard fires on a line exactly when the line is a usage report whose input token
  count reaches the threshold (its share of the window of 200000 tokens is at least
  0.70) and no usage report before it in the session did; after a usage report the
  context percentage is the reported count divided by the window size. So the guard
  fires exactly once in a session with a report that reaches the threshold, on the first
  such report, and never in a session without one. A count reaches the threshold exactly
  when it is at least 140000.
\<close>

theorem guard_fires_once:
  assumes "\<forall>ev \<in> set evs. well_shaped ev"
  shows "\<exists>entries. run_events evs (reset_session t s) = (entries, None)
     \<and> length entries = length evs
     \<and> (\<forall>i<length evs.
           (fst (entries ! i) \<longleftrightarrow>
              (\<exists>n. reported_tokens evs 0 ! i = Some n \<and> reaches_threshold n)
              \<and> (\<forall>j<i. \<forall>m. reported_tokens evs 0 ! j = Some m \<longrightarrow> \<not> reaches_threshold m))
         \<and> (\<forall>n. reported_tokens evs 0 ! i = Some n
                 \<longrightarrow> snd (entries ! i) = of_int n / of_int CONTEXT_WINDOW_SIZE))
     \<and> length (filter fst entries)
         = (if \<exists>n. Some n \<in> set (reported_tokens evs 0) \<and> reaches_threshold n then 1 else 0)
     \<and> (\<forall>n. reaches_threshold n \<longleftrightarrow> 140000 \<le> n)"
proof -
  have o: "\<not> context_overflow (reset_session t s)"
    and z: "uint (tokens_in (metrics (reset_session t s))) = 0"
    by (simp_all add: reset_session_def)
  from run_events_well_shaped [OF assms, of "reset_session t s"]
  show ?thesis
    unfolding z using o by (simp add: reaches_threshold_iff)
qed

text \<open>
  A session that follows one that had overflowed, with reports of 100000, 140000 and
  190000 input tokens: the guard fires on the second report, at 70 percent, and on no
  other line.
\<close>

theorem guard_fires_once_witness:
  "filter (\<lambda>ev. \<not> well_shaped ev) session_lines = []
   \<and> reported_tokens session_lines 0 = [Some 100000, Some 140000, None, Some 190000, Some 190000]
   \<and> (\<exists>entries. run_events session_lines (reset_session 5 overflowed_state) = (entries, None)
        \<and> length entries = 5
        \<and> \<not> fst (entries ! 0) \<and> fst (entries ! 1) \<and> \<not> fst (entries ! 3) \<and> \<not> fst (entries ! 4)
        \<and> snd (entries ! 1) = 7 / 10
        \<and> length (filter fst entries) = 1)"
proof -
  have ws: "\<forall>ev \<in> set session_lines. well_shaped ev"
    by (simp add: session_lines_def usage_report_def)
  have toks: "reported_tokens session_lines 0 = [Some 100000, Some 140000, None, Some 190000, Some 190000]"
    by (simp add: session_lines_def usage_report_def)
  from guard_fires_once [OF ws, of 5 overflowed_state]
  obtain entries where
    run: "run_events session_lines (reset_session 5 overflowed_state) = (entries, None)"
    and len: "length entries = length session_lines"
    and each: "\<forall>i<length session_lines.
           (fst (entries ! i) \<longleftrightarrow>
              (\<exists>n. reported_tokens session_lines 0 ! i = Some n \<and> reaches_threshold n)
              \<and> (\<forall>j<i. \<forall>m. reported_tokens session_lines 0 ! j = Some m \<longrightarrow> \<not> reaches_threshold m))
         \<and> (\<forall>n. reported_tokens session_lines 0 ! i = Some n
                 \<longrightarrow> snd (entries ! i) = of_int n / of_int CONTEXT_WINDOW_SIZE)"
    and cnt: "length (filter fst entries)
         = (if \<exists>n. Some n \<in> set (reported_tokens session_lines 0) \<and> reaches_threshold n then 1 else 0)"
    and thr: "\<forall>n. reaches_threshold n \<longleftrightarrow> 140000 \<le> n"
    by blast
  have n: "length session_lines = 5"
    by (simp add: session_lines_def)
  have e0: "\<not> fst (entries ! 0)"
    using each n toks thr by simp
  have e1: "fst (entries ! 1)"
    using each n toks thr by simp
  have "\<forall>n. reported_tokens session_lines 0 ! 1 = Some n
           \<longrightarrow> snd (entries ! 1) = of_int n / of_int CONTEXT_WINDOW_SIZE"
    using each n by simp
  then have p1: "snd (entries ! 1) = 7 / 10"
    using toks by (simp add: CONTEXT_WINDOW_SIZE_def)
  have e3: "\<not> fst (entries ! 3)"
  proof
    assume "fst (entries ! 3)"
    then have "\<forall>j<3. \<forall>m. reported_tokens session_lines 0 ! j = Some m \<longrightarrow> \<not> reaches_threshold m"
      using each n by simp
    then have "\<not> reaches_threshold 140000"
      using toks by (simp add: All_less_Suc eval_nat_numeral)
    then show False using thr by simp
  qed
  have e4: "\<not> fst (entries ! 4)"
  proof
    assume "fst (entries ! 4)"
    then have "\<forall>j<4. \<forall>m. reported_tokens session_lines 0 ! j = Some m \<longrightarrow> \<not> reaches_threshold m"
      using each n by simp
    then have "\<not> reaches_threshold 140000"
      using toks by (simp add: All_less_Suc eval_nat_numeral)
    then show False using thr by simp
  qed
  have "\<exists>n. Some n \<in> set (reported_tokens session_lines 0) \<and> reaches_threshold n"
    using toks thr by (intro exI [of _ 140000]) simp
  then have c: "length (filter fst entries) = 1"
    using cnt by simp
  have w: "filter (\<lambda>ev. \<not> well_shaped ev) session_lines = []"
    using ws by simp
  from w toks run len n e0 e1 p1 e3 e4 c show ?thesis by simp
qed


end
